theory Spec2Isabelle
  imports Main "HOL-Library.Sublist"
begin

section \<open>The PlanAndCode agent of AutoPR\<close>

text \<open>
  This theory embeds \<^verbatim>\<open>autopr/agents/plan_and_code.py\<close>: the class \<^verbatim>\<open>PlanAndCode\<close>
  with its constructor and the methods \<^verbatim>\<open>write_commit\<close>, \<^verbatim>\<open>create_pull_request\<close>
  and \<^verbatim>\<open>handle_event\<close>. The four services the agent talks to (action, publish, diff
  and commit service) are not part of the file; they are fields of the agent, taken as
  parameters. Each service method is a function on an external world \<open>'w\<close> (the working
  tree, the remote, the language model, the progress report), about which nothing is
  assumed, except that the call returns: an exception raised inside a service is not
  modelled. Every service call the agent makes is also appended to a log, together with
  what the service returned, so that the order and the number of calls can be stated.
  The two exceptions the file itself raises are values of type \<open>error\<close>; a method that
  can raise returns its result next to the state, so that the calls made before the
  raise stay visible. Contexts and plans are values: the plan is read once, where the
  loop of \<^verbatim>\<open>create_pull_request\<close> starts.
\<close>

subsection \<open>Values, context, events\<close>

text \<open>
  \<^verbatim>\<open>CommitPlan\<close> and \<^verbatim>\<open>PullRequestDescription\<close> are imported from
  \<^verbatim>\<open>autopr.actions.utils.commit\<close>; the agent reads \<^verbatim>\<open>commit_message\<close> of the former and
  \<^verbatim>\<open>title\<close>, \<^verbatim>\<open>body\<close>, \<^verbatim>\<open>commits\<close> of the latter.
\<close>

record CommitPlan =
  commit_message :: string

record PullRequestDescription =
  title :: string
  body :: string
  commits :: "CommitPlan list"

text \<open>
  The values a context can hold. \<open>VObject c r\<close> is an instance of any other class, with
  the qualified name \<open>c\<close> of its class and a rendering \<open>r\<close> of its fields.
\<close>

datatype pyval =
    VNone
  | VBool bool
  | VInt int
  | VStr string
  | VList "pyval list"
  | VCommitPlan CommitPlan
  | VPullRequestDescription PullRequestDescription
  | VObject string string

type_synonym ContextDict = "string \<rightharpoonup> pyval"

text \<open>The text of \<^verbatim>\<open>type(v)\<close> inside an f-string: \<^verbatim>\<open><class 'str'>\<close> and so on.\<close>

definition class_repr :: "string \<Rightarrow> string" where
  "class_repr c = ''<class '' @ [CHR 0x27] @ c @ [CHR 0x27] @ ''>''"

fun type_repr :: "pyval \<Rightarrow> string" where
  "type_repr VNone = class_repr ''NoneType''"
| "type_repr (VBool b) = class_repr ''bool''"
| "type_repr (VInt i) = class_repr ''int''"
| "type_repr (VStr s) = class_repr ''str''"
| "type_repr (VList vs) = class_repr ''list''"
| "type_repr (VCommitPlan c) = class_repr ''autopr.actions.utils.commit.CommitPlan''"
| "type_repr (VPullRequestDescription d) =
     class_repr ''autopr.actions.utils.commit.PullRequestDescription''"
| "type_repr (VObject c r) = class_repr c"

text \<open>
  \<^verbatim>\<open>EventUnion\<close> is a union of event classes, of which the agent knows
  \<^verbatim>\<open>IssueLabelEvent\<close> (with its field \<^verbatim>\<open>issue\<close>). Any other member is \<open>OtherEvent c\<close>,
  with the qualified name \<open>c\<close> of its class.
\<close>

record IssueLabelEvent =
  issue :: pyval

datatype EventUnion =
    IssueLabel IssueLabelEvent
  | OtherEvent string

datatype error =
    TypeError string
  | NotImplementedError string

subsection \<open>Services and the log of their calls\<close>

text \<open>
  One entry per service call, with the arguments as the agent passes them. An argument
  the agent leaves out (\<^verbatim>\<open>context_headings\<close> and \<^verbatim>\<open>include_finished\<close> in the planning
  call) is \<open>None\<close>. The last argument of \<open>RunActionsIteratively\<close> and the argument of
  \<open>GetDiff\<close> are what the service returned.
\<close>

datatype call =
    OverwriteNewBranch
  | Commit string bool
  | StartSection string
  | EndSection string
  | PublishCodeBlock string string string
  | SetPrDescription string string
  | RunActionsIteratively "string list" ContextDict "(string \<rightharpoonup> string) option" int
      "bool option" ContextDict
  | GetDiff string

record 'w PublishService =
  start_section :: "string \<Rightarrow> 'w \<Rightarrow> 'w"
  end_section :: "string \<Rightarrow> 'w \<Rightarrow> 'w"
  publish_code_block :: "string \<Rightarrow> string \<Rightarrow> string \<Rightarrow> 'w \<Rightarrow> 'w"
  set_pr_description :: "string \<Rightarrow> string \<Rightarrow> 'w \<Rightarrow> 'w"

record 'w CommitService =
  overwrite_new_branch :: "'w \<Rightarrow> 'w"
  commit :: "string \<Rightarrow> bool \<Rightarrow> 'w \<Rightarrow> 'w"

record 'w DiffService =
  get_diff :: "'w \<Rightarrow> string \<times> 'w"

record 'w ActionService =
  run_actions_iteratively ::
    "string list \<Rightarrow> ContextDict \<Rightarrow> (string \<rightharpoonup> string) option \<Rightarrow> int \<Rightarrow> bool option
       \<Rightarrow> 'w \<Rightarrow> ContextDict \<times> 'w"

record 'w PlanAndCode =
  publish_service :: "'w PublishService"
  commit_service :: "'w CommitService"
  diff_service :: "'w DiffService"
  action_service :: "'w ActionService"
  planning_actions :: "string list"
  codegen_actions :: "string list"
  max_codegen_iterations :: int

record 'w state =
  world :: 'w
  calls :: "call list"

definition call_start_section :: "'w PlanAndCode \<Rightarrow> string \<Rightarrow> 'w state \<Rightarrow> 'w state" where
  "call_start_section self txt s =
     \<lparr>world = start_section (publish_service self) txt (world s),
      calls = calls s @ [StartSection txt]\<rparr>"

definition call_end_section :: "'w PlanAndCode \<Rightarrow> string \<Rightarrow> 'w state \<Rightarrow> 'w state" where
  "call_end_section self txt s =
     \<lparr>world = end_section (publish_service self) txt (world s),
      calls = calls s @ [EndSection txt]\<rparr>"

definition call_publish_code_block ::
  "'w PlanAndCode \<Rightarrow> string \<Rightarrow> string \<Rightarrow> string \<Rightarrow> 'w state \<Rightarrow> 'w state" where
  "call_publish_code_block self heading code language s =
     \<lparr>world = publish_code_block (publish_service self) heading code language (world s),
      calls = calls s @ [PublishCodeBlock heading code language]\<rparr>"

definition call_set_pr_description ::
  "'w PlanAndCode \<Rightarrow> string \<Rightarrow> string \<Rightarrow> 'w state \<Rightarrow> 'w state" where
  "call_set_pr_description self t b s =
     \<lparr>world = set_pr_description (publish_service self) t b (world s),
      calls = calls s @ [SetPrDescription t b]\<rparr>"

definition call_overwrite_new_branch :: "'w PlanAndCode \<Rightarrow> 'w state \<Rightarrow> 'w state" where
  "call_overwrite_new_branch self s =
     \<lparr>world = overwrite_new_branch (commit_service self) (world s),
      calls = calls s @ [OverwriteNewBranch]\<rparr>"

definition call_commit :: "'w PlanAndCode \<Rightarrow> string \<Rightarrow> bool \<Rightarrow> 'w state \<Rightarrow> 'w state" where
  "call_commit self message push s =
     \<lparr>world = commit (commit_service self) message push (world s),
      calls = calls s @ [Commit message push]\<rparr>"

definition call_get_diff :: "'w PlanAndCode \<Rightarrow> 'w state \<Rightarrow> string \<times> 'w state" where
  "call_get_diff self s =
     (let (diff, w) = get_diff (diff_service self) (world s)
      in (diff, \<lparr>world = w, calls = calls s @ [GetDiff diff]\<rparr>))"

definition call_run_actions_iteratively ::
  "'w PlanAndCode \<Rightarrow> string list \<Rightarrow> ContextDict \<Rightarrow> (string \<rightharpoonup> string) option \<Rightarrow> int
     \<Rightarrow> bool option \<Rightarrow> 'w state \<Rightarrow> ContextDict \<times> 'w state" where
  "call_run_actions_iteratively self action_ids context context_headings max_iterations
       include_finished s =
     (let (context', w) =
            run_actions_iteratively (action_service self) action_ids context context_headings
              max_iterations include_finished (world s)
      in (context',
          \<lparr>world = w,
           calls = calls s @ [RunActionsIteratively action_ids context context_headings
                               max_iterations include_finished context']\<rparr>))"

subsection \<open>The constructor\<close>

text \<open>
  \<^verbatim>\<open>__init__\<close>: the services come from the base class \<^verbatim>\<open>Agent\<close>; the three keyword
  arguments have defaults, \<open>None\<close> standing for an argument that is not given.
\<close>

definition init ::
  "'w PublishService \<Rightarrow> 'w CommitService \<Rightarrow> 'w DiffService \<Rightarrow> 'w ActionService
     \<Rightarrow> string list option \<Rightarrow> string list option \<Rightarrow> int option \<Rightarrow> 'w PlanAndCode" where
  "init pub com dif act planning codegen max_iter =
     \<lparr>publish_service = pub,
      commit_service = com,
      diff_service = dif,
      action_service = act,
      planning_actions =
        (case planning of None \<Rightarrow> [''plan_pull_request'', ''request_more_information'']
         | Some a \<Rightarrow> a),
      codegen_actions = (case codegen of None \<Rightarrow> [''new_file'', ''edit_file''] | Some a \<Rightarrow> a),
      max_codegen_iterations = (case max_iter of None \<Rightarrow> 5 | Some n \<Rightarrow> n)\<rparr>"

subsection \<open>write_commit\<close>

text \<open>The three prefixes of the progress report, as the UTF-8 bytes of the source file.\<close>

definition writing_commit_prefix :: string where
  "writing_commit_prefix = [CHR 0xF0, CHR 0x9F, CHR 0x94, CHR 0xA8] @ '' Writing commit ''"

definition committed_prefix :: string where
  "committed_prefix = [CHR 0xE2, CHR 0x9C, CHR 0x85] @ '' Committed ''"

definition empty_commit_prefix :: string where
  "empty_commit_prefix =
     [CHR 0xE2, CHR 0x9A, CHR 0xA0, CHR 0xEF, CHR 0xB8, CHR 0x8F] @ '' Empty commit ''"

definition codegen_headings :: "(string \<rightharpoonup> string) \<Rightarrow> (string \<rightharpoonup> string)" where
  "codegen_headings context_headings =
     [''current_commit'' \<mapsto> ''Commit we are currently generating'',
      ''action_history'' \<mapsto> ''Actions that have been run so far''] ++ context_headings"

definition write_commit ::
  "'w PlanAndCode \<Rightarrow> CommitPlan \<Rightarrow> ContextDict \<Rightarrow> (string \<rightharpoonup> string) \<Rightarrow> 'w state
     \<Rightarrow> ContextDict \<times> 'w state" where
  "write_commit self commit_plan context context_headings s =
     (let s = call_start_section self (writing_commit_prefix @ commit_message commit_plan) s;
          context = context(''current_commit'' \<mapsto> VCommitPlan commit_plan);
          context = context(''action_history'' \<mapsto> VList []);
          (context, s) =
            call_run_actions_iteratively self (codegen_actions self) context
              (Some (codegen_headings context_headings)) (max_codegen_iterations self)
              (Some True) s;
          (diff, s) = call_get_diff self s;
          s = (if diff \<noteq> []
               then call_end_section self (committed_prefix @ commit_message commit_plan)
                      (call_publish_code_block self ''Diff'' diff ''diff'' s)
               else call_end_section self (empty_commit_prefix @ commit_message commit_plan) s);
          s = call_commit self (commit_message commit_plan) True s
      in (context, s))"

subsection \<open>create_pull_request and handle_event\<close>

definition plan_headings :: "string \<rightharpoonup> string" where
  "plan_headings = [''pull_request_description'' \<mapsto> ''Plan for the pull request'']"

text \<open>The \<^verbatim>\<open>for\<close> loop of \<^verbatim>\<open>create_pull_request\<close> over \<^verbatim>\<open>pr_desc.commits\<close>.\<close>

fun write_commits ::
  "'w PlanAndCode \<Rightarrow> CommitPlan list \<Rightarrow> ContextDict \<Rightarrow> 'w state \<Rightarrow> ContextDict \<times> 'w state" where
  "write_commits self [] context s = (context, s)"
| "write_commits self (current_commit # rest) context s =
     (let (context, s) = write_commit self current_commit context plan_headings s
      in write_commits self rest context s)"

definition type_error_message :: "pyval \<Rightarrow> string" where
  "type_error_message pr_desc =
     ''Actions returned a pull request description of type '' @ type_repr pr_desc
       @ '' instead of PullRequestDescription''"

definition create_pull_request ::
  "'w PlanAndCode \<Rightarrow> IssueLabelEvent \<Rightarrow> 'w state \<Rightarrow> (error + unit) \<times> 'w state" where
  "create_pull_request self event s =
     (let s = call_overwrite_new_branch self s;
          context = [''issue'' \<mapsto> issue event];
          (context, s) =
            call_run_actions_iteratively self (planning_actions self) context None 1 None s
      in case context ''pull_request_description'' of
           None \<Rightarrow> (Inr (), s)
         | Some pr_desc \<Rightarrow>
             (case pr_desc of
                VPullRequestDescription d \<Rightarrow>
                  (let s = call_set_pr_description self (title d) (body d) s;
                       (context, s) = write_commits self (commits d) context s
                   in (Inr (), s))
              | _ \<Rightarrow> (Inl (TypeError (type_error_message pr_desc)), s)))"

definition handle_event ::
  "'w PlanAndCode \<Rightarrow> EventUnion \<Rightarrow> 'w state \<Rightarrow> (error + unit) \<times> 'w state" where
  "handle_event self event s =
     (case event of
        IssueLabel e \<Rightarrow> create_pull_request self e s
      | OtherEvent c \<Rightarrow>
          (Inl (NotImplementedError (''Event type '' @ class_repr c @ '' not supported'')), s))"

subsection \<open>Reading the log\<close>

text \<open>
  \<open>emitted s s'\<close> is what a run from state \<open>s\<close> to state \<open>s'\<close> appended to the log. The
  other functions select the calls of one kind, in order: the section starts, the
  reports (\<^verbatim>\<open>end_section\<close>), the commits with their \<^verbatim>\<open>push\<close> flag, the diffs the diff
  service returned, the published descriptions and code blocks, and of each
  \<^verbatim>\<open>run_actions_iteratively\<close> call the action identifiers, \<^verbatim>\<open>max_iterations\<close> and
  \<^verbatim>\<open>include_finished\<close>, or the context passed in.
\<close>

definition emitted :: "'w state \<Rightarrow> 'w state \<Rightarrow> call list" where
  "emitted s s' = drop (length (calls s)) (calls s')"

definition section_starts :: "call list \<Rightarrow> string list" where
  "section_starts cs = concat (map (\<lambda>c. case c of StartSection t \<Rightarrow> [t] | _ \<Rightarrow> []) cs)"

definition reports :: "call list \<Rightarrow> string list" where
  "reports cs = concat (map (\<lambda>c. case c of EndSection t \<Rightarrow> [t] | _ \<Rightarrow> []) cs)"

definition commits_pushed :: "call list \<Rightarrow> (string \<times> bool) list" where
  "commits_pushed cs = concat (map (\<lambda>c. case c of Commit m p \<Rightarrow> [(m, p)] | _ \<Rightarrow> []) cs)"

definition returned_diffs :: "call list \<Rightarrow> string list" where
  "returned_diffs cs = concat (map (\<lambda>c. case c of GetDiff d \<Rightarrow> [d] | _ \<Rightarrow> []) cs)"

definition pr_descriptions :: "call list \<Rightarrow> (string \<times> string) list" where
  "pr_descriptions cs =
     concat (map (\<lambda>c. case c of SetPrDescription t b \<Rightarrow> [(t, b)] | _ \<Rightarrow> []) cs)"

definition published_blocks :: "call list \<Rightarrow> (string \<times> string \<times> string) list" where
  "published_blocks cs =
     concat (map (\<lambda>c. case c of PublishCodeBlock h c l \<Rightarrow> [(h, c, l)] | _ \<Rightarrow> []) cs)"

definition run_arguments :: "call list \<Rightarrow> (string list \<times> int \<times> bool option) list" where
  "run_arguments cs =
     concat (map (\<lambda>c. case c of RunActionsIteratively a x h m i r \<Rightarrow> [(a, m, i)] | _ \<Rightarrow> []) cs)"

definition run_contexts :: "call list \<Rightarrow> ContextDict list" where
  "run_contexts cs =
     concat (map (\<lambda>c. case c of RunActionsIteratively a x h m i r \<Rightarrow> [x] | _ \<Rightarrow> []) cs)"

text \<open>
  The planning stage is the first part of \<^verbatim>\<open>create_pull_request\<close>, up to the call of
  \<^verbatim>\<open>run_actions_iteratively\<close> with the planning actions: it returns the context in which
  \<^verbatim>\<open>pull_request_description\<close> is then looked up. \<open>is_pull_request_description\<close> is the
  test \<^verbatim>\<open>isinstance(pr_desc, PullRequestDescription)\<close>.
\<close>

definition planning_stage :: "'w PlanAndCode \<Rightarrow> IssueLabelEvent \<Rightarrow> 'w state \<Rightarrow> ContextDict \<times> 'w state" where
  "planning_stage self event s =
     call_run_actions_iteratively self (planning_actions self) [''issue'' \<mapsto> issue event] None 1
       None (call_overwrite_new_branch self s)"

fun is_pull_request_description :: "pyval \<Rightarrow> bool" where
  "is_pull_request_description (VPullRequestDescription d) = True"
| "is_pull_request_description v = False"

text \<open>
  The calls of one \<^verbatim>\<open>write_commit\<close> invocation, given the context \<open>ctx'\<close> the codegen
  run returned and the diff the diff service returned, and the calls of the loop over a
  plan, given these for every commit of the plan.
\<close>

definition codegen_context :: "CommitPlan \<Rightarrow> ContextDict \<Rightarrow> ContextDict" where
  "codegen_context cp ctx = ctx(''current_commit'' \<mapsto> VCommitPlan cp, ''action_history'' \<mapsto> VList [])"

definition write_commit_trace ::
  "'w PlanAndCode \<Rightarrow> CommitPlan \<Rightarrow> ContextDict \<Rightarrow> (string \<rightharpoonup> string) \<Rightarrow> ContextDict \<Rightarrow> string \<Rightarrow> call list" where
  "write_commit_trace self cp ctx hs ctx' diff =
     [StartSection (writing_commit_prefix @ commit_message cp),
      RunActionsIteratively (codegen_actions self) (codegen_context cp ctx)
        (Some (codegen_headings hs)) (max_codegen_iterations self) (Some True) ctx',
      GetDiff diff]
     @ (if diff \<noteq> []
        then [PublishCodeBlock ''Diff'' diff ''diff'',
              EndSection (committed_prefix @ commit_message cp)]
        else [EndSection (empty_commit_prefix @ commit_message cp)])
     @ [Commit (commit_message cp) True]"

fun write_commits_trace ::
  "'w PlanAndCode \<Rightarrow> CommitPlan list \<Rightarrow> ContextDict \<Rightarrow> ContextDict list \<Rightarrow> string list \<Rightarrow> call list" where
  "write_commits_trace self (cp # cps) ctx (out # outs) (d # ds) =
     write_commit_trace self cp ctx plan_headings out d @ write_commits_trace self cps out outs ds"
| "write_commits_trace self cps ctx outs ds = []"

subsection \<open>A concrete environment\<close>

text \<open>
  A small environment on which the theorems below are instantiated. The world counts the
  diffs taken so far: the first diff is \<^verbatim>\<open>+x\<close>, every later one is empty. The action
  service stores \<open>v\<close> under \<^verbatim>\<open>pull_request_description\<close> when it is called without
  headings (the planning call) and returns the context unchanged otherwise.
\<close>

definition demo_publish :: "nat PublishService" where
  "demo_publish =
     \<lparr>start_section = (\<lambda>t w. w), end_section = (\<lambda>t w. w),
      publish_code_block = (\<lambda>h c l w. w), set_pr_description = (\<lambda>t b w. w)\<rparr>"

definition demo_commit :: "nat CommitService" where
  "demo_commit = \<lparr>overwrite_new_branch = (\<lambda>w. w), commit = (\<lambda>m p w. w)\<rparr>"

definition demo_diff :: "nat DiffService" where
  "demo_diff = \<lparr>get_diff = (\<lambda>w. (if w = 0 then ''+x'' else [], Suc w))\<rparr>"

definition demo_action :: "pyval option \<Rightarrow> nat ActionService" where
  "demo_action v =
     \<lparr>run_actions_iteratively = (\<lambda>a ctx h m i w.
        (case h of
           None \<Rightarrow> (case v of None \<Rightarrow> ctx | Some x \<Rightarrow> ctx(''pull_request_description'' \<mapsto> x))
         | Some _ \<Rightarrow> ctx, w))\<rparr>"

definition demo_agent :: "pyval option \<Rightarrow> nat PlanAndCode" where
  "demo_agent v = init demo_publish demo_commit demo_diff (demo_action v) None None None"

definition demo_state :: "nat \<Rightarrow> nat state" where
  "demo_state w = \<lparr>world = w, calls = []\<rparr>"

definition demo_plan :: PullRequestDescription where
  "demo_plan =
     \<lparr>title = ''Add foo and fix bar'', body = ''Closes the issue'',
      commits = [\<lparr>commit_message = ''Add foo.py''\<rparr>, \<lparr>commit_message = ''Fix bar.py''\<rparr>]\<rparr>"

definition demo_event :: IssueLabelEvent where
  "demo_event = \<lparr>issue = VObject ''Issue'' ''issue 1''\<rparr>"

section \<open>Properties\<close>

subsection \<open>What each call appends to the log\<close>

lemma calls_start_section: "calls (call_start_section self t s) = calls s @ [StartSection t]"
  by (simp add: call_start_section_def)

lemma calls_end_section: "calls (call_end_section self t s) = calls s @ [EndSection t]"
  by (simp add: call_end_section_def)

lemma calls_publish_code_block:
  "calls (call_publish_code_block self h c l s) = calls s @ [PublishCodeBlock h c l]"
  by (simp add: call_publish_code_block_def)

lemma calls_set_pr_description:
  "calls (call_set_pr_description self t b s) = calls s @ [SetPrDescription t b]"
  by (simp add: call_set_pr_description_def)

lemma calls_overwrite_new_branch:
  "calls (call_overwrite_new_branch self s) = calls s @ [OverwriteNewBranch]"
  by (simp add: call_overwrite_new_branch_def)

lemma calls_commit: "calls (call_commit self m p s) = calls s @ [Commit m p]"
  by (simp add: call_commit_def)

lemma calls_get_diff:
  "calls (snd (call_get_diff self s)) = calls s @ [GetDiff (fst (call_get_diff self s))]"
  by (simp add: call_get_diff_def case_prod_beta)

lemma calls_run_actions_iteratively:
  "calls (snd (call_run_actions_iteratively self a c h m i s)) =
     calls s @ [RunActionsIteratively a c h m i (fst (call_run_actions_iteratively self a c h m i s))]"
  by (simp add: call_run_actions_iteratively_def case_prod_beta)

lemmas calls_simps = calls_start_section calls_end_section calls_publish_code_block
  calls_set_pr_description calls_overwrite_new_branch calls_commit calls_get_diff
  calls_run_actions_iteratively

lemma write_commit_calls:
  assumes "write_commit self cp ctx hs s = (ctx', s')"
  shows "\<exists>diff. calls s' = calls s @ write_commit_trace self cp ctx hs ctx' diff"
proof -
  define r where "r = call_run_actions_iteratively self (codegen_actions self)
      (codegen_context cp ctx) (Some (codegen_headings hs)) (max_codegen_iterations self)
      (Some True) (call_start_section self (writing_commit_prefix @ commit_message cp) s)"
  define g where "g = call_get_diff self (snd r)"
  have w: "write_commit self cp ctx hs s =
      (fst r, call_commit self (commit_message cp) True
        (if fst g \<noteq> []
         then call_end_section self (committed_prefix @ commit_message cp)
                (call_publish_code_block self ''Diff'' (fst g) ''diff'' (snd g))
         else call_end_section self (empty_commit_prefix @ commit_message cp) (snd g)))"
    by (simp add: write_commit_def Let_def case_prod_beta r_def g_def codegen_context_def)
  from w assms have c: "ctx' = fst r"
    and s': "s' = call_commit self (commit_message cp) True
        (if fst g \<noteq> []
         then call_end_section self (committed_prefix @ commit_message cp)
                (call_publish_code_block self ''Diff'' (fst g) ''diff'' (snd g))
         else call_end_section self (empty_commit_prefix @ commit_message cp) (snd g))"
    by simp_all
  have "calls s' = calls s @ write_commit_trace self cp ctx hs ctx' (fst g)"
    by (simp add: s' c calls_simps write_commit_trace_def g_def r_def)
  then show ?thesis ..
qed

lemma emitted_append: "calls s' = calls s @ tr \<Longrightarrow> emitted s s' = tr"
  by (simp add: emitted_def)

lemmas call_defs = call_start_section_def call_end_section_def call_publish_code_block_def
  call_set_pr_description_def call_overwrite_new_branch_def call_commit_def call_get_diff_def
  call_run_actions_iteratively_def

lemmas demo_defs = demo_publish_def demo_commit_def demo_diff_def demo_action_def demo_agent_def
  demo_state_def init_def

lemmas run_defs = create_pull_request_def planning_stage_def write_commit_def Let_def call_defs
  demo_defs demo_plan_def demo_event_def emitted_def codegen_headings_def plan_headings_def

lemmas read_defs = section_starts_def commits_pushed_def returned_diffs_def reports_def
  pr_descriptions_def run_arguments_def run_contexts_def published_blocks_def

lemma write_commits_calls:
  "write_commits self cps ctx s = (ctx', s') \<Longrightarrow>
     \<exists>outs ds. length outs = length cps \<and> length ds = length cps
       \<and> calls s' = calls s @ write_commits_trace self cps ctx outs ds"
proof (induction cps arbitrary: ctx s)
  case Nil
  then show ?case by simp
next
  case (Cons cp cps)
  obtain c1 s1 where w: "write_commit self cp ctx plan_headings s = (c1, s1)"
    by (cases "write_commit self cp ctx plan_headings s")
  with Cons.prems have r: "write_commits self cps c1 s1 = (ctx', s')"
    by simp
  from write_commit_calls [OF w] obtain d
    where d: "calls s1 = calls s @ write_commit_trace self cp ctx plan_headings c1 d" ..
  from Cons.IH [OF r] obtain outs ds
    where l: "length outs = length cps" "length ds = length cps"
      and t: "calls s' = calls s1 @ write_commits_trace self cps c1 outs ds"
    by blast
  have "calls s' = calls s @ write_commits_trace self (cp # cps) ctx (c1 # outs) (d # ds)"
    by (simp add: t d)
  moreover have "length (c1 # outs) = length (cp # cps)" "length (d # ds) = length (cp # cps)"
    using l by simp_all
  ultimately show ?case by blast
qed

lemma write_commit_trace_reads:
  "section_starts (write_commit_trace self cp ctx hs out d) = [writing_commit_prefix @ commit_message cp]"
  "commits_pushed (write_commit_trace self cp ctx hs out d) = [(commit_message cp, True)]"
  "returned_diffs (write_commit_trace self cp ctx hs out d) = [d]"
  "reports (write_commit_trace self cp ctx hs out d) =
     [if d \<noteq> [] then committed_prefix @ commit_message cp
      else empty_commit_prefix @ commit_message cp]"
  "pr_descriptions (write_commit_trace self cp ctx hs out d) = []"
  "run_arguments (write_commit_trace self cp ctx hs out d) =
     [(codegen_actions self, max_codegen_iterations self, Some True)]"
  "run_contexts (write_commit_trace self cp ctx hs out d) = [codegen_context cp ctx]"
  "OverwriteNewBranch \<notin> set (write_commit_trace self cp ctx hs out d)"
  by (simp_all add: write_commit_trace_def section_starts_def commits_pushed_def
      returned_diffs_def reports_def pr_descriptions_def run_arguments_def run_contexts_def)

lemma reads_append:
  "section_starts (xs @ ys) = section_starts xs @ section_starts ys"
  "commits_pushed (xs @ ys) = commits_pushed xs @ commits_pushed ys"
  "returned_diffs (xs @ ys) = returned_diffs xs @ returned_diffs ys"
  "reports (xs @ ys) = reports xs @ reports ys"
  "pr_descriptions (xs @ ys) = pr_descriptions xs @ pr_descriptions ys"
  "run_arguments (xs @ ys) = run_arguments xs @ run_arguments ys"
  "run_contexts (xs @ ys) = run_contexts xs @ run_contexts ys"
  by (simp_all add: section_starts_def commits_pushed_def
      returned_diffs_def reports_def pr_descriptions_def run_arguments_def run_contexts_def)

lemma reads_Nil:
  "section_starts [] = []" "commits_pushed [] = []" "returned_diffs [] = []" "reports [] = []"
  "pr_descriptions [] = []" "run_arguments [] = []" "run_contexts [] = []"
  by (simp_all add: section_starts_def commits_pushed_def
      returned_diffs_def reports_def pr_descriptions_def run_arguments_def run_contexts_def)

lemma write_commits_trace_reads:
  assumes "length outs = length cps" and "length ds = length cps"
  shows "section_starts (write_commits_trace self cps ctx outs ds) =
           map (\<lambda>cp. writing_commit_prefix @ commit_message cp) cps"
    and "commits_pushed (write_commits_trace self cps ctx outs ds) =
           map (\<lambda>cp. (commit_message cp, True)) cps"
    and "returned_diffs (write_commits_trace self cps ctx outs ds) = ds"
    and "reports (write_commits_trace self cps ctx outs ds) =
           map2 (\<lambda>cp d. if d \<noteq> [] then committed_prefix @ commit_message cp
                         else empty_commit_prefix @ commit_message cp) cps ds"
    and "pr_descriptions (write_commits_trace self cps ctx outs ds) = []"
    and "run_arguments (write_commits_trace self cps ctx outs ds) =
           replicate (length cps) (codegen_actions self, max_codegen_iterations self, Some True)"
    and "map (\<lambda>c. (c ''current_commit'', c ''action_history''))
             (run_contexts (write_commits_trace self cps ctx outs ds)) =
           map (\<lambda>cp. (Some (VCommitPlan cp), Some (VList []))) cps"
    and "OverwriteNewBranch \<notin> set (write_commits_trace self cps ctx outs ds)"
  using assms
proof (induction self cps ctx outs ds rule: write_commits_trace.induct)
  case (1 self cp cps ctx out outs d ds)
  {
    case 1 with "1.IH"(1) show ?case by (simp add: reads_append write_commit_trace_reads)
  next
    case 2 with "1.IH"(2) show ?case by (simp add: reads_append write_commit_trace_reads)
  next
    case 3 with "1.IH"(3) show ?case by (simp add: reads_append write_commit_trace_reads)
  next
    case 4 with "1.IH"(4) show ?case by (simp add: reads_append write_commit_trace_reads)
  next
    case 5 with "1.IH"(5) show ?case by (simp add: reads_append write_commit_trace_reads)
  next
    case 6 with "1.IH"(6) show ?case by (simp add: reads_append write_commit_trace_reads)
  next
    case 7 with "1.IH"(7) show ?case
      by (simp add: reads_append write_commit_trace_reads codegen_context_def)
  next
    case 8 with "1.IH"(8) show ?case by (simp add: write_commit_trace_reads)
  }
qed (simp_all add: reads_Nil)

lemma planning_stage_calls:
  assumes "planning_stage self event s = (ctx, s1)"
  shows "calls s1 = calls s @
    [OverwriteNewBranch,
     RunActionsIteratively (planning_actions self) [''issue'' \<mapsto> issue event] None 1 None ctx]"
proof -
  from assms have "ctx = fst (planning_stage self event s)" "s1 = snd (planning_stage self event s)"
    by simp_all
  then show ?thesis
    by (simp add: planning_stage_def calls_simps)
qed

lemma create_pull_request_after_planning:
  assumes "planning_stage self event s = (ctx, s1)"
  shows "create_pull_request self event s =
    (case ctx ''pull_request_description'' of
       None \<Rightarrow> (Inr (), s1)
     | Some v \<Rightarrow>
         (case v of
            VPullRequestDescription d \<Rightarrow>
              (Inr (), snd (write_commits self (commits d) ctx
                              (call_set_pr_description self (title d) (body d) s1)))
          | _ \<Rightarrow> (Inl (TypeError (type_error_message v)), s1)))"
  using assms
  by (simp add: create_pull_request_def planning_stage_def Let_def case_prod_beta
      split: option.splits pyval.splits)

lemma create_pull_request_planned_calls:
  assumes p: "planning_stage self event s = (ctx, s1)"
    and d: "ctx ''pull_request_description'' = Some (VPullRequestDescription d)"
    and c: "create_pull_request self event s = (r, s')"
  shows "r = Inr ()"
    and "\<exists>outs ds. length outs = length (commits d) \<and> length ds = length (commits d)
       \<and> calls s' = calls s @
           [OverwriteNewBranch,
            RunActionsIteratively (planning_actions self) [''issue'' \<mapsto> issue event] None 1 None
              ctx,
            SetPrDescription (title d) (body d)]
           @ write_commits_trace self (commits d) ctx outs ds"
proof -
  define s2 where "s2 = call_set_pr_description self (title d) (body d) s1"
  from create_pull_request_after_planning [OF p] d c
  have r: "r = Inr ()" and s': "s' = snd (write_commits self (commits d) ctx s2)"
    by (simp_all add: s2_def)
  from r show "r = Inr ()" .
  from s' have "write_commits self (commits d) ctx s2 =
      (fst (write_commits self (commits d) ctx s2), s')"
    by simp
  from write_commits_calls [OF this] obtain outs ds
    where l: "length outs = length (commits d)" "length ds = length (commits d)"
      and t: "calls s' = calls s2 @ write_commits_trace self (commits d) ctx outs ds"
    by blast
  have "calls s' = calls s @
           [OverwriteNewBranch,
            RunActionsIteratively (planning_actions self) [''issue'' \<mapsto> issue event] None 1 None
              ctx,
            SetPrDescription (title d) (body d)]
           @ write_commits_trace self (commits d) ctx outs ds"
    by (simp add: t s2_def calls_simps planning_stage_calls [OF p])
  with l show "\<exists>outs ds. length outs = length (commits d) \<and> length ds = length (commits d)
       \<and> calls s' = calls s @
           [OverwriteNewBranch,
            RunActionsIteratively (planning_actions self) [''issue'' \<mapsto> issue event] None 1 None
              ctx,
            SetPrDescription (title d) (body d)]
           @ write_commits_trace self (commits d) ctx outs ds"
    by blast
qed

lemma reads_Cons:
  "section_starts (c # cs) = (case c of StartSection t \<Rightarrow> [t] | _ \<Rightarrow> []) @ section_starts cs"
  "commits_pushed (c # cs) = (case c of Commit m p \<Rightarrow> [(m, p)] | _ \<Rightarrow> []) @ commits_pushed cs"
  "returned_diffs (c # cs) = (case c of GetDiff d \<Rightarrow> [d] | _ \<Rightarrow> []) @ returned_diffs cs"
  "reports (c # cs) = (case c of EndSection t \<Rightarrow> [t] | _ \<Rightarrow> []) @ reports cs"
  "pr_descriptions (c # cs) =
     (case c of SetPrDescription t b \<Rightarrow> [(t, b)] | _ \<Rightarrow> []) @ pr_descriptions cs"
  "run_arguments (c # cs) =
     (case c of RunActionsIteratively a x h m i r \<Rightarrow> [(a, m, i)] | _ \<Rightarrow> []) @ run_arguments cs"
  "run_contexts (c # cs) =
     (case c of RunActionsIteratively a x h m i r \<Rightarrow> [x] | _ \<Rightarrow> []) @ run_contexts cs"
  by (simp_all add: section_starts_def commits_pushed_def
      returned_diffs_def reports_def pr_descriptions_def run_arguments_def run_contexts_def)

lemma planning_stage_emitted:
  assumes "planning_stage self event s = (ctx, s1)"
  shows "emitted s s1 =
    [OverwriteNewBranch,
     RunActionsIteratively (planning_actions self) [''issue'' \<mapsto> issue event] None 1 None ctx]"
  using planning_stage_calls [OF assms] by (rule emitted_append)

lemma create_pull_request_aborted:
  assumes "planning_stage self event s = (ctx, s1)"
    and "''pull_request_description'' \<notin> dom ctx"
  shows "create_pull_request self event s = (Inr (), s1)"
  using create_pull_request_after_planning [OF assms(1)] assms(2)
  by (simp add: domIff)

lemma create_pull_request_raises:
  assumes "planning_stage self event s = (ctx, s1)"
    and "ctx ''pull_request_description'' = Some v"
    and "\<not> is_pull_request_description v"
  shows "create_pull_request self event s = (Inl (TypeError (type_error_message v)), s1)"
  using create_pull_request_after_planning [OF assms(1)] assms(2,3)
  by (cases v) simp_all

lemma create_pull_request_cases:
  obtains (aborted) ctx s1 where "planning_stage self event s = (ctx, s1)"
      "''pull_request_description'' \<notin> dom ctx"
  | (wrong) ctx s1 v where "planning_stage self event s = (ctx, s1)"
      "ctx ''pull_request_description'' = Some v" "\<not> is_pull_request_description v"
  | (planned) ctx s1 d where "planning_stage self event s = (ctx, s1)"
      "ctx ''pull_request_description'' = Some (VPullRequestDescription d)"
proof -
  obtain ctx s1 where p: "planning_stage self event s = (ctx, s1)"
    by (cases "planning_stage self event s")
  show thesis
  proof (cases "ctx ''pull_request_description''")
    case None
    then have "''pull_request_description'' \<notin> dom ctx" by (simp add: domIff)
    with p show ?thesis by (rule aborted)
  next
    case (Some v)
    show ?thesis
    proof (cases "is_pull_request_description v")
      case True
      then obtain d where "v = VPullRequestDescription d" by (cases v) simp_all
      with p Some show ?thesis using planned by simp
    next
      case False
      with p Some show ?thesis by (rule wrong)
    qed
  qed
qed

subsection \<open>Planning without a description\<close>

text \<open>
  C1. For every issue-labeled event whose planning stage leaves no
  \<^verbatim>\<open>pull_request_description\<close> key in the context, \<^verbatim>\<open>create_pull_request\<close> returns
  normally (\<open>Inr ()\<close>, no exception) in the state the planning stage left: its only calls
  are \<^verbatim>\<open>overwrite_new_branch\<close> and the planning run, so no section of
  \<^verbatim>\<open>write_commit\<close> is started and \<^verbatim>\<open>commit_service.commit\<close> is never called.
\<close>

theorem create_pull_request_no_description:
  assumes "planning_stage self event s = (ctx, s1)"
    and "''pull_request_description'' \<notin> dom ctx"
  shows "create_pull_request self event s = (Inr (), s1)
    \<and> emitted s s1 =
        [OverwriteNewBranch,
         RunActionsIteratively (planning_actions self) [''issue'' \<mapsto> issue event] None 1 None ctx]
    \<and> commits_pushed (emitted s s1) = []
    \<and> section_starts (emitted s s1) = []"
  using create_pull_request_aborted [OF assms] planning_stage_emitted [OF assms(1)]
  by (simp add: reads_Cons reads_Nil)

theorem create_pull_request_no_description_witness:
  "''pull_request_description'' \<notin>
      dom (fst (planning_stage (demo_agent None) demo_event (demo_state 0)))
   \<and> create_pull_request (demo_agent None) demo_event (demo_state 0) =
       (Inr (), snd (planning_stage (demo_agent None) demo_event (demo_state 0)))
   \<and> commits_pushed (emitted (demo_state 0)
        (snd (planning_stage (demo_agent None) demo_event (demo_state 0)))) = []"
proof -
  have h: "''pull_request_description'' \<notin>
      dom (fst (planning_stage (demo_agent None) demo_event (demo_state 0)))"
    by (simp add: run_defs)
  from create_pull_request_no_description [OF prod.collapse [symmetric] h] h show ?thesis
    by blast
qed

subsection \<open>The description is published once, before the commits\<close>

text \<open>
  C2. For every issue-labeled event where planning places a
  \<^verbatim>\<open>PullRequestDescription\<close> in the context, \<^verbatim>\<open>set_pr_description\<close> is called exactly
  once, with the title and the body of that description. The call is the third of the
  run, after \<^verbatim>\<open>overwrite_new_branch\<close> and the planning run; every call of every
  \<^verbatim>\<open>write_commit\<close> invocation (one section start and one commit per planned commit)
  comes after it.
\<close>

theorem create_pull_request_publishes_once:
  assumes "planning_stage self event s = (ctx, s1)"
    and "ctx ''pull_request_description'' = Some (VPullRequestDescription d)"
    and "create_pull_request self event s = (r, s')"
  shows "pr_descriptions (emitted s s') = [(title d, body d)]
    \<and> (\<exists>rest. emitted s s' =
          [OverwriteNewBranch,
           RunActionsIteratively (planning_actions self) [''issue'' \<mapsto> issue event] None 1 None
             ctx,
           SetPrDescription (title d) (body d)] @ rest
        \<and> pr_descriptions rest = []
        \<and> section_starts rest =
            map (\<lambda>cp. writing_commit_prefix @ commit_message cp) (commits d)
        \<and> commits_pushed rest = map (\<lambda>cp. (commit_message cp, True)) (commits d))"
proof -
  from create_pull_request_planned_calls(2) [OF assms] obtain outs ds
    where l: "length outs = length (commits d)" "length ds = length (commits d)"
      and c: "calls s' = calls s @
           [OverwriteNewBranch,
            RunActionsIteratively (planning_actions self) [''issue'' \<mapsto> issue event] None 1 None
              ctx,
            SetPrDescription (title d) (body d)]
           @ write_commits_trace self (commits d) ctx outs ds"
    by blast
  from c have e: "emitted s s' =
           [OverwriteNewBranch,
            RunActionsIteratively (planning_actions self) [''issue'' \<mapsto> issue event] None 1 None
              ctx,
            SetPrDescription (title d) (body d)]
           @ write_commits_trace self (commits d) ctx outs ds"
    by (rule emitted_append)
  have 1: "pr_descriptions (emitted s s') = [(title d, body d)]"
    by (simp add: e reads_Cons write_commits_trace_reads(5) [OF l])
  have 2: "pr_descriptions (write_commits_trace self (commits d) ctx outs ds) = []"
    by (rule write_commits_trace_reads(5) [OF l])
  have 3: "section_starts (write_commits_trace self (commits d) ctx outs ds) =
            map (\<lambda>cp. writing_commit_prefix @ commit_message cp) (commits d)"
    by (rule write_commits_trace_reads(1) [OF l])
  have 4: "commits_pushed (write_commits_trace self (commits d) ctx outs ds) =
            map (\<lambda>cp. (commit_message cp, True)) (commits d)"
    by (rule write_commits_trace_reads(2) [OF l])
  from 1 e 2 3 4 show ?thesis by blast
qed

theorem create_pull_request_publishes_once_witness:
  "fst (planning_stage (demo_agent (Some (VPullRequestDescription demo_plan))) demo_event
         (demo_state 0)) ''pull_request_description'' = Some (VPullRequestDescription demo_plan)
   \<and> pr_descriptions (emitted (demo_state 0)
        (snd (create_pull_request (demo_agent (Some (VPullRequestDescription demo_plan)))
               demo_event (demo_state 0)))) = [(''Add foo and fix bar'', ''Closes the issue'')]"
proof -
  have h: "fst (planning_stage (demo_agent (Some (VPullRequestDescription demo_plan))) demo_event
         (demo_state 0)) ''pull_request_description'' = Some (VPullRequestDescription demo_plan)"
    by (simp add: run_defs)
  from create_pull_request_publishes_once
    [OF prod.collapse [symmetric] h prod.collapse [symmetric]] h
  show ?thesis
    by (simp add: demo_plan_def)
qed

subsection \<open>One write_commit per planned commit\<close>

text \<open>
  C3. For every commit plan with N commits, \<^verbatim>\<open>write_commit\<close> is invoked exactly N
  times, once per planned commit in plan order: the section starts and the commits of
  the run are those of the plan, in order. In each invocation the context passed to the
  codegen run has \<^verbatim>\<open>current_commit\<close> set to that commit and \<^verbatim>\<open>action_history\<close> set to
  the empty list.
\<close>

theorem create_pull_request_writes_each_commit:
  assumes "planning_stage self event s = (ctx, s1)"
    and "ctx ''pull_request_description'' = Some (VPullRequestDescription d)"
    and "create_pull_request self event s = (r, s')"
  shows "section_starts (emitted s s') =
           map (\<lambda>cp. writing_commit_prefix @ commit_message cp) (commits d)
    \<and> length (section_starts (emitted s s')) = length (commits d)
    \<and> map (\<lambda>c. (c ''current_commit'', c ''action_history'')) (run_contexts (emitted s1 s')) =
           map (\<lambda>cp. (Some (VCommitPlan cp), Some (VList []))) (commits d)
    \<and> commits_pushed (emitted s s') = map (\<lambda>cp. (commit_message cp, True)) (commits d)"
proof -
  from create_pull_request_planned_calls(2) [OF assms] obtain outs ds
    where l: "length outs = length (commits d)" "length ds = length (commits d)"
      and c: "calls s' = calls s @
           [OverwriteNewBranch,
            RunActionsIteratively (planning_actions self) [''issue'' \<mapsto> issue event] None 1 None
              ctx,
            SetPrDescription (title d) (body d)]
           @ write_commits_trace self (commits d) ctx outs ds"
    by blast
  note rd = write_commits_trace_reads [OF l, of self ctx]
  from c have e: "emitted s s' =
           [OverwriteNewBranch,
            RunActionsIteratively (planning_actions self) [''issue'' \<mapsto> issue event] None 1 None
              ctx,
            SetPrDescription (title d) (body d)]
           @ write_commits_trace self (commits d) ctx outs ds"
    by (rule emitted_append)
  from c have "calls s' = calls s1 @
      SetPrDescription (title d) (body d) # write_commits_trace self (commits d) ctx outs ds"
    by (simp add: planning_stage_calls [OF assms(1)])
  then have e1: "emitted s1 s' =
      SetPrDescription (title d) (body d) # write_commits_trace self (commits d) ctx outs ds"
    by (rule emitted_append)
  have 1: "section_starts (emitted s s') =
           map (\<lambda>cp. writing_commit_prefix @ commit_message cp) (commits d)"
    by (simp add: e reads_Cons rd(1))
  have 2: "map (\<lambda>c. (c ''current_commit'', c ''action_history'')) (run_contexts (emitted s1 s')) =
           map (\<lambda>cp. (Some (VCommitPlan cp), Some (VList []))) (commits d)"
    by (simp add: e1 reads_Cons rd(7))
  have 3: "commits_pushed (emitted s s') = map (\<lambda>cp. (commit_message cp, True)) (commits d)"
    by (simp add: e reads_Cons rd(2))
  from 1 2 3 show ?thesis by simp
qed

theorem create_pull_request_writes_each_commit_witness:
  "fst (planning_stage (demo_agent (Some (VPullRequestDescription demo_plan))) demo_event
         (demo_state 0)) ''pull_request_description'' = Some (VPullRequestDescription demo_plan)
   \<and> section_starts (emitted (demo_state 0)
        (snd (create_pull_request (demo_agent (Some (VPullRequestDescription demo_plan)))
               demo_event (demo_state 0)))) =
       [writing_commit_prefix @ ''Add foo.py'', writing_commit_prefix @ ''Fix bar.py'']
   \<and> map (\<lambda>c. (c ''current_commit'', c ''action_history''))
        (run_contexts (emitted
          (snd (planning_stage (demo_agent (Some (VPullRequestDescription demo_plan))) demo_event
                 (demo_state 0)))
          (snd (create_pull_request (demo_agent (Some (VPullRequestDescription demo_plan)))
                 demo_event (demo_state 0))))) =
       [(Some (VCommitPlan \<lparr>commit_message = ''Add foo.py''\<rparr>), Some (VList [])),
        (Some (VCommitPlan \<lparr>commit_message = ''Fix bar.py''\<rparr>), Some (VList []))]"
proof -
  have h: "fst (planning_stage (demo_agent (Some (VPullRequestDescription demo_plan))) demo_event
         (demo_state 0)) ''pull_request_description'' = Some (VPullRequestDescription demo_plan)"
    by (simp add: run_defs)
  from create_pull_request_writes_each_commit
    [OF prod.collapse [symmetric] h prod.collapse [symmetric]] h
  show ?thesis
    by (simp add: demo_plan_def)
qed

subsection \<open>An empty diff is committed with a warning\<close>

text \<open>
  C4. For every \<^verbatim>\<open>write_commit\<close> invocation where the diff service returns an empty diff
  after codegen, the invocation makes exactly these calls, in this order: the section
  start, the codegen run, the diff, the report
  \<^verbatim>\<open>end_section("<warning sign> Empty commit <message>")\<close>, and
  \<^verbatim>\<open>commit(<message>, push=True)\<close>. So the commit is still committed and pushed with the
  plan entry's message, the one report is the warning, and there is no success message.
\<close>

theorem write_commit_empty_diff:
  assumes "write_commit self cp ctx hs s = (ctx', s')"
    and "GetDiff [] \<in> set (emitted s s')"
  shows "emitted s s' =
           [StartSection (writing_commit_prefix @ commit_message cp),
            RunActionsIteratively (codegen_actions self)
              (ctx(''current_commit'' \<mapsto> VCommitPlan cp, ''action_history'' \<mapsto> VList []))
              (Some (codegen_headings hs)) (max_codegen_iterations self) (Some True) ctx',
            GetDiff [],
            EndSection (empty_commit_prefix @ commit_message cp),
            Commit (commit_message cp) True]
         \<and> reports (emitted s s') = [empty_commit_prefix @ commit_message cp]
         \<and> commits_pushed (emitted s s') = [(commit_message cp, True)]"
proof -
  from write_commit_calls [OF assms(1)] obtain diff
    where "calls s' = calls s @ write_commit_trace self cp ctx hs ctx' diff" ..
  then have e: "emitted s s' = write_commit_trace self cp ctx hs ctx' diff"
    by (rule emitted_append)
  with assms(2) have "diff = []"
    by (auto simp: write_commit_trace_def split: if_splits)
  with e show ?thesis
    by (simp add: write_commit_trace_def codegen_context_def reports_def commits_pushed_def)
qed

theorem write_commit_empty_diff_witness:
  "GetDiff [] \<in> set (emitted (demo_state 1)
       (snd (write_commit (demo_agent None) \<lparr>commit_message = ''Fix bar.py''\<rparr> Map.empty
               plan_headings (demo_state 1))))
   \<and> reports (emitted (demo_state 1)
       (snd (write_commit (demo_agent None) \<lparr>commit_message = ''Fix bar.py''\<rparr> Map.empty
               plan_headings (demo_state 1))))
     = [empty_commit_prefix @ ''Fix bar.py'']
   \<and> commits_pushed (emitted (demo_state 1)
       (snd (write_commit (demo_agent None) \<lparr>commit_message = ''Fix bar.py''\<rparr> Map.empty
               plan_headings (demo_state 1))))
     = [(''Fix bar.py'', True)]"
proof -
  have h: "GetDiff [] \<in> set (emitted (demo_state 1)
       (snd (write_commit (demo_agent None) \<lparr>commit_message = ''Fix bar.py''\<rparr> Map.empty
               plan_headings (demo_state 1))))"
    by (simp add: write_commit_def Let_def call_defs demo_defs emitted_def)
  from write_commit_empty_diff [OF prod.collapse [symmetric] h] h show ?thesis
    by (simp add: reports_def commits_pushed_def)
qed

subsection \<open>A non-empty diff is published before the success message\<close>

text \<open>
  C5. For every \<^verbatim>\<open>write_commit\<close> invocation where the diff service returns a non-empty
  diff after codegen, the code block is published before the success message
  \<^verbatim>\<open><check mark> Committed <message>\<close> is emitted. The success message carries the
  commit message of the plan entry, as the section start and the commit do; the code
  block carries the heading \<^verbatim>\<open>Diff\<close>, the diff and the language \<^verbatim>\<open>diff\<close>.
\<close>

theorem write_commit_nonempty_diff:
  assumes "write_commit self cp ctx hs s = (ctx', s')"
    and "GetDiff diff \<in> set (emitted s s')"
    and "diff \<noteq> []"
  shows "emitted s s' =
           [StartSection (writing_commit_prefix @ commit_message cp),
            RunActionsIteratively (codegen_actions self)
              (ctx(''current_commit'' \<mapsto> VCommitPlan cp, ''action_history'' \<mapsto> VList []))
              (Some (codegen_headings hs)) (max_codegen_iterations self) (Some True) ctx',
            GetDiff diff,
            PublishCodeBlock ''Diff'' diff ''diff'',
            EndSection (committed_prefix @ commit_message cp),
            Commit (commit_message cp) True]"
proof -
  from write_commit_calls [OF assms(1)] obtain d
    where "calls s' = calls s @ write_commit_trace self cp ctx hs ctx' d" ..
  then have e: "emitted s s' = write_commit_trace self cp ctx hs ctx' d"
    by (rule emitted_append)
  with assms(2) have "d = diff"
    by (auto simp: write_commit_trace_def split: if_splits)
  with e assms(3) show ?thesis
    by (simp add: write_commit_trace_def codegen_context_def)
qed

theorem write_commit_nonempty_diff_witness:
  "GetDiff ''+x'' \<in> set (emitted (demo_state 0)
       (snd (write_commit (demo_agent None) \<lparr>commit_message = ''Add foo.py''\<rparr> Map.empty
               plan_headings (demo_state 0))))
   \<and> ''+x'' \<noteq> []
   \<and> published_blocks (emitted (demo_state 0)
       (snd (write_commit (demo_agent None) \<lparr>commit_message = ''Add foo.py''\<rparr> Map.empty
               plan_headings (demo_state 0)))) = [(''Diff'', ''+x'', ''diff'')]
   \<and> reports (emitted (demo_state 0)
       (snd (write_commit (demo_agent None) \<lparr>commit_message = ''Add foo.py''\<rparr> Map.empty
               plan_headings (demo_state 0)))) = [committed_prefix @ ''Add foo.py'']"
proof -
  have h: "GetDiff ''+x'' \<in> set (emitted (demo_state 0)
       (snd (write_commit (demo_agent None) \<lparr>commit_message = ''Add foo.py''\<rparr> Map.empty
               plan_headings (demo_state 0))))"
    by (simp add: write_commit_def Let_def call_defs demo_defs emitted_def)
  have n: "''+x'' \<noteq> []" by simp
  from write_commit_nonempty_diff [OF prod.collapse [symmetric] h n] h show ?thesis
    by (simp add: read_defs)
qed

text \<open>
  The code block does not carry the commit message: with the diff \<^verbatim>\<open>+x\<close> and the
  commit message \<^verbatim>\<open>Add foo.py\<close>, the message occurs in none of the three arguments of
  the one \<^verbatim>\<open>publish_code_block\<close> call.
\<close>

theorem write_commit_code_block_counterexample:
  "returned_diffs (emitted (demo_state 0)
       (snd (write_commit (demo_agent None) \<lparr>commit_message = ''Add foo.py''\<rparr> Map.empty
               plan_headings (demo_state 0)))) = [''+x'']
   \<and> published_blocks (emitted (demo_state 0)
       (snd (write_commit (demo_agent None) \<lparr>commit_message = ''Add foo.py''\<rparr> Map.empty
               plan_headings (demo_state 0)))) = [(''Diff'', ''+x'', ''diff'')]
   \<and> \<not> sublist ''Add foo.py'' ''Diff''
   \<and> \<not> sublist ''Add foo.py'' ''+x''
   \<and> \<not> sublist ''Add foo.py'' ''diff''"
  by (simp add: write_commit_def Let_def call_defs demo_defs emitted_def read_defs
      sublist_Cons_right)

subsection \<open>Unsupported events\<close>

text \<open>
  C6. For every event that is not an issue-labeled event, \<^verbatim>\<open>handle_event\<close> raises
  \<^verbatim>\<open>NotImplementedError\<close> in the state it was called in: no service is called before
  the raise, so there is no action execution and no branch or commit side effect.
\<close>

theorem handle_event_unsupported:
  "handle_event self (OtherEvent c) s =
     (Inl (NotImplementedError (''Event type '' @ class_repr c @ '' not supported'')), s)
   \<and> emitted s (snd (handle_event self (OtherEvent c) s)) = []"
  by (simp add: handle_event_def emitted_def)

subsection \<open>A description of the wrong type\<close>

text \<open>
  C7. For every issue-labeled event where planning places under
  \<^verbatim>\<open>pull_request_description\<close> a value that is not a \<^verbatim>\<open>PullRequestDescription\<close>,
  \<^verbatim>\<open>create_pull_request\<close> raises \<^verbatim>\<open>TypeError\<close> with a message that names the type of
  the value and \<^verbatim>\<open>PullRequestDescription\<close>, in the state the planning stage left: no
  description is published, no section is started and no commit is made.
\<close>

theorem create_pull_request_wrong_type:
  assumes "planning_stage self event s = (ctx, s1)"
    and "ctx ''pull_request_description'' = Some v"
    and "\<not> is_pull_request_description v"
  shows "create_pull_request self event s =
           (Inl (TypeError (''Actions returned a pull request description of type ''
                   @ type_repr v @ '' instead of PullRequestDescription'')), s1)
    \<and> emitted s s1 =
        [OverwriteNewBranch,
         RunActionsIteratively (planning_actions self) [''issue'' \<mapsto> issue event] None 1 None ctx]
    \<and> pr_descriptions (emitted s s1) = []
    \<and> section_starts (emitted s s1) = []
    \<and> commits_pushed (emitted s s1) = []"
  using create_pull_request_raises [OF assms] planning_stage_emitted [OF assms(1)]
  by (simp add: reads_Cons reads_Nil type_error_message_def)

theorem create_pull_request_wrong_type_witness:
  "fst (planning_stage (demo_agent (Some (VStr ''later''))) demo_event (demo_state 0))
       ''pull_request_description'' = Some (VStr ''later'')
   \<and> \<not> is_pull_request_description (VStr ''later'')
   \<and> create_pull_request (demo_agent (Some (VStr ''later''))) demo_event (demo_state 0) =
       (Inl (TypeError (''Actions returned a pull request description of type <class ''
               @ [CHR 0x27] @ ''str'' @ [CHR 0x27] @ ''> instead of PullRequestDescription'')),
        snd (planning_stage (demo_agent (Some (VStr ''later''))) demo_event (demo_state 0)))"
proof -
  have h: "fst (planning_stage (demo_agent (Some (VStr ''later''))) demo_event (demo_state 0))
       ''pull_request_description'' = Some (VStr ''later'')"
    by (simp add: run_defs)
  have n: "\<not> is_pull_request_description (VStr ''later'')" by simp
  from create_pull_request_wrong_type [OF prod.collapse [symmetric] h n] h show ?thesis
    by (simp add: class_repr_def)
qed

subsection \<open>The arguments of run_actions_iteratively\<close>

text \<open>
  C8. The first \<^verbatim>\<open>run_actions_iteratively\<close> call of \<^verbatim>\<open>create_pull_request\<close> is the
  planning call, with the planning actions, \<^verbatim>\<open>max_iterations=1\<close> and no
  \<^verbatim>\<open>include_finished\<close>; every other one is a codegen call with the codegen actions,
  \<^verbatim>\<open>max_iterations\<close> equal to \<^verbatim>\<open>max_codegen_iterations\<close> of the agent and
  \<^verbatim>\<open>include_finished=True\<close>, as is the one call of any \<^verbatim>\<open>write_commit\<close> invocation.
  The constructor sets \<^verbatim>\<open>max_codegen_iterations\<close> to 5 unless it is given.
\<close>

theorem run_actions_iteratively_arguments:
  "(\<exists>n. run_arguments (emitted s (snd (create_pull_request self event s))) =
          (planning_actions self, 1, None)
            # replicate n (codegen_actions self, max_codegen_iterations self, Some True))
   \<and> run_arguments (emitted s (snd (write_commit self cp ctx hs s))) =
        [(codegen_actions self, max_codegen_iterations self, Some True)]
   \<and> max_codegen_iterations (init pub com dif act planning codegen None) = 5
   \<and> max_codegen_iterations (init pub com dif act planning codegen (Some k)) = k"
proof -
  have 1: "\<exists>n. run_arguments (emitted s (snd (create_pull_request self event s))) =
          (planning_actions self, 1, None)
            # replicate n (codegen_actions self, max_codegen_iterations self, Some True)"
  proof (cases self event s rule: create_pull_request_cases)
    case (aborted ctx s1)
    from create_pull_request_aborted [OF aborted] planning_stage_emitted [OF aborted(1)]
    have "run_arguments (emitted s (snd (create_pull_request self event s))) =
        (planning_actions self, 1, None)
          # replicate 0 (codegen_actions self, max_codegen_iterations self, Some True)"
      by (simp add: reads_Cons reads_Nil)
    then show ?thesis ..
  next
    case (wrong ctx s1 v)
    from create_pull_request_raises [OF wrong] planning_stage_emitted [OF wrong(1)]
    have "run_arguments (emitted s (snd (create_pull_request self event s))) =
        (planning_actions self, 1, None)
          # replicate 0 (codegen_actions self, max_codegen_iterations self, Some True)"
      by (simp add: reads_Cons reads_Nil)
    then show ?thesis ..
  next
    case (planned ctx s1 d)
    from create_pull_request_planned_calls(2) [OF planned prod.collapse [symmetric]]
    obtain outs ds
      where l: "length outs = length (commits d)" "length ds = length (commits d)"
        and c: "calls (snd (create_pull_request self event s)) = calls s @
           [OverwriteNewBranch,
            RunActionsIteratively (planning_actions self) [''issue'' \<mapsto> issue event] None 1 None
              ctx,
            SetPrDescription (title d) (body d)]
           @ write_commits_trace self (commits d) ctx outs ds"
      by blast
    from c have e: "emitted s (snd (create_pull_request self event s)) =
           [OverwriteNewBranch,
            RunActionsIteratively (planning_actions self) [''issue'' \<mapsto> issue event] None 1 None
              ctx,
            SetPrDescription (title d) (body d)]
           @ write_commits_trace self (commits d) ctx outs ds"
      by (rule emitted_append)
    have "run_arguments (emitted s (snd (create_pull_request self event s))) =
        (planning_actions self, 1, None)
          # replicate (length (commits d))
              (codegen_actions self, max_codegen_iterations self, Some True)"
      by (simp add: e reads_Cons write_commits_trace_reads(6) [OF l])
    then show ?thesis ..
  qed
  from write_commit_calls [OF prod.collapse [symmetric]] obtain d
    where "calls (snd (write_commit self cp ctx hs s)) =
      calls s @ write_commit_trace self cp ctx hs (fst (write_commit self cp ctx hs s)) d" ..
  then have "emitted s (snd (write_commit self cp ctx hs s)) =
      write_commit_trace self cp ctx hs (fst (write_commit self cp ctx hs s)) d"
    by (rule emitted_append)
  then have 2: "run_arguments (emitted s (snd (write_commit self cp ctx hs s))) =
        [(codegen_actions self, max_codegen_iterations self, Some True)]"
    by (simp add: write_commit_trace_reads)
  have 3: "max_codegen_iterations (init pub com dif act planning codegen None) = 5"
    "max_codegen_iterations (init pub com dif act planning codegen (Some k)) = k"
    by (simp_all add: init_def)
  from 1 2 3 show ?thesis by blast
qed

subsection \<open>A plan of two commits\<close>

text \<open>
  C9. For an issue-labeled event whose plan has exactly the two commits
  \<^verbatim>\<open>Add foo.py\<close> and \<^verbatim>\<open>Fix bar.py\<close>, where the diff after the first codegen run is not
  empty and the diff after the second is empty, there are exactly two commits, both
  pushed, and exactly two reports: the success report for \<^verbatim>\<open>Add foo.py\<close> first, the
  warning for \<^verbatim>\<open>Fix bar.py\<close> second.
\<close>

theorem create_pull_request_two_commits:
  assumes "planning_stage self event s = (ctx, s1)"
    and "ctx ''pull_request_description'' = Some (VPullRequestDescription d)"
    and "create_pull_request self event s = (r, s')"
    and "map commit_message (commits d) = [''Add foo.py'', ''Fix bar.py'']"
    and "returned_diffs (emitted s s') = [d1, d2]"
    and "d1 \<noteq> []" and "d2 = []"
  shows "commits_pushed (emitted s s') = [(''Add foo.py'', True), (''Fix bar.py'', True)]
    \<and> reports (emitted s s') =
        [committed_prefix @ ''Add foo.py'', empty_commit_prefix @ ''Fix bar.py'']"
proof -
  from create_pull_request_planned_calls(2) [OF assms(1-3)] obtain outs ds
    where l: "length outs = length (commits d)" "length ds = length (commits d)"
      and c: "calls s' = calls s @
           [OverwriteNewBranch,
            RunActionsIteratively (planning_actions self) [''issue'' \<mapsto> issue event] None 1 None
              ctx,
            SetPrDescription (title d) (body d)]
           @ write_commits_trace self (commits d) ctx outs ds"
    by blast
  note rd = write_commits_trace_reads [OF l, of self ctx]
  from c have e: "emitted s s' =
           [OverwriteNewBranch,
            RunActionsIteratively (planning_actions self) [''issue'' \<mapsto> issue event] None 1 None
              ctx,
            SetPrDescription (title d) (body d)]
           @ write_commits_trace self (commits d) ctx outs ds"
    by (rule emitted_append)
  from assms(4) obtain c1 c2 where cs: "commits d = [c1, c2]"
    and m: "commit_message c1 = ''Add foo.py''" "commit_message c2 = ''Fix bar.py''"
    by (auto simp: map_eq_Cons_conv)
  have "returned_diffs (emitted s s') = ds"
    by (simp add: e reads_Cons rd(3))
  with assms(5) have ds: "ds = [d1, d2]" by simp
  have "commits_pushed (emitted s s') = map (\<lambda>cp. (commit_message cp, True)) (commits d)"
    by (simp add: e reads_Cons rd(2))
  then have 1: "commits_pushed (emitted s s') = [(''Add foo.py'', True), (''Fix bar.py'', True)]"
    by (simp add: cs m)
  have "reports (emitted s s') =
      map2 (\<lambda>cp d. if d \<noteq> [] then committed_prefix @ commit_message cp
                    else empty_commit_prefix @ commit_message cp) (commits d) ds"
    by (simp add: e reads_Cons rd(4))
  then have 2: "reports (emitted s s') =
        [committed_prefix @ ''Add foo.py'', empty_commit_prefix @ ''Fix bar.py'']"
    using assms(6,7) by (simp add: cs m ds)
  from 1 2 show ?thesis ..
qed

theorem create_pull_request_two_commits_witness:
  "fst (planning_stage (demo_agent (Some (VPullRequestDescription demo_plan))) demo_event
         (demo_state 0)) ''pull_request_description'' = Some (VPullRequestDescription demo_plan)
   \<and> map commit_message (commits demo_plan) = [''Add foo.py'', ''Fix bar.py'']
   \<and> returned_diffs (emitted (demo_state 0)
        (snd (create_pull_request (demo_agent (Some (VPullRequestDescription demo_plan)))
               demo_event (demo_state 0)))) = [''+x'', []]
   \<and> commits_pushed (emitted (demo_state 0)
        (snd (create_pull_request (demo_agent (Some (VPullRequestDescription demo_plan)))
               demo_event (demo_state 0)))) = [(''Add foo.py'', True), (''Fix bar.py'', True)]
   \<and> reports (emitted (demo_state 0)
        (snd (create_pull_request (demo_agent (Some (VPullRequestDescription demo_plan)))
               demo_event (demo_state 0)))) =
       [committed_prefix @ ''Add foo.py'', empty_commit_prefix @ ''Fix bar.py'']"
proof -
  have h: "fst (planning_stage (demo_agent (Some (VPullRequestDescription demo_plan))) demo_event
         (demo_state 0)) ''pull_request_description'' = Some (VPullRequestDescription demo_plan)"
    by (simp add: run_defs)
  have m: "map commit_message (commits demo_plan) = [''Add foo.py'', ''Fix bar.py'']"
    by (simp add: demo_plan_def)
  have d: "returned_diffs (emitted (demo_state 0)
        (snd (create_pull_request (demo_agent (Some (VPullRequestDescription demo_plan)))
               demo_event (demo_state 0)))) = [''+x'', []]"
    by (simp add: run_defs read_defs)
  have n: "''+x'' \<noteq> []" by simp
  from create_pull_request_two_commits
    [OF prod.collapse [symmetric] h prod.collapse [symmetric] m d n refl] h m d
  show ?thesis
    by simp
qed

subsection \<open>The branch is created first\<close>

text \<open>
  C10. For every issue-labeled event, whatever the outcome of the run (silent abort,
  \<^verbatim>\<open>TypeError\<close> or commits written), \<^verbatim>\<open>overwrite_new_branch\<close> is the first call of
  \<^verbatim>\<open>create_pull_request\<close>, the planning run is the second, and
  \<^verbatim>\<open>overwrite_new_branch\<close> is not called again.
\<close>

theorem create_pull_request_branch_first:
  "\<exists>ctx rest. emitted s (snd (create_pull_request self event s)) =
       OverwriteNewBranch
         # RunActionsIteratively (planning_actions self) [''issue'' \<mapsto> issue event] None 1 None
             ctx
         # rest
     \<and> OverwriteNewBranch \<notin> set rest"
proof (cases self event s rule: create_pull_request_cases)
  case (aborted ctx s1)
  from create_pull_request_aborted [OF aborted] planning_stage_emitted [OF aborted(1)]
  have "emitted s (snd (create_pull_request self event s)) =
       OverwriteNewBranch
         # RunActionsIteratively (planning_actions self) [''issue'' \<mapsto> issue event] None 1 None
             ctx
         # [] \<and> OverwriteNewBranch \<notin> set []"
    by simp
  then show ?thesis by blast
next
  case (wrong ctx s1 v)
  from create_pull_request_raises [OF wrong] planning_stage_emitted [OF wrong(1)]
  have "emitted s (snd (create_pull_request self event s)) =
       OverwriteNewBranch
         # RunActionsIteratively (planning_actions self) [''issue'' \<mapsto> issue event] None 1 None
             ctx
         # [] \<and> OverwriteNewBranch \<notin> set []"
    by simp
  then show ?thesis by blast
next
  case (planned ctx s1 d)
  from create_pull_request_planned_calls(2) [OF planned prod.collapse [symmetric]]
  obtain outs ds
    where l: "length outs = length (commits d)" "length ds = length (commits d)"
      and c: "calls (snd (create_pull_request self event s)) = calls s @
           [OverwriteNewBranch,
            RunActionsIteratively (planning_actions self) [''issue'' \<mapsto> issue event] None 1 None
              ctx,
            SetPrDescription (title d) (body d)]
           @ write_commits_trace self (commits d) ctx outs ds"
    by blast
  from c have e: "emitted s (snd (create_pull_request self event s)) =
           [OverwriteNewBranch,
            RunActionsIteratively (planning_actions self) [''issue'' \<mapsto> issue event] None 1 None
              ctx,
            SetPrDescription (title d) (body d)]
           @ write_commits_trace self (commits d) ctx outs ds"
    by (rule emitted_append)
  have "emitted s (snd (create_pull_request self event s)) =
       OverwriteNewBranch
         # RunActionsIteratively (planning_actions self) [''issue'' \<mapsto> issue event] None 1 None
             ctx
         # (SetPrDescription (title d) (body d) # write_commits_trace self (commits d) ctx outs ds)
      \<and> OverwriteNewBranch \<notin>
          set (SetPrDescription (title d) (body d) # write_commits_trace self (commits d) ctx outs ds)"
    by (simp add: e write_commits_trace_reads(8) [OF l])
  then show ?thesis by blast
qed

end
